theory Spec2Isabelle
  imports Main "HOL-Library.Word"
begin

section \<open>Apps v2 service of the OneLogin Go SDK: rules and parameters reconciliation\<close>

text \<open>
  The development embeds \<^verbatim>\<open>pkg/services/apps/v2.go\<close>: the app life cycle
  (\<^verbatim>\<open>GetOne\<close>, \<^verbatim>\<open>Create\<close>, \<^verbatim>\<open>Update\<close>, \<^verbatim>\<open>Destroy\<close>) and the three helpers
  \<^verbatim>\<open>saveAppRules\<close>, \<^verbatim>\<open>pruneAppRules\<close> and \<^verbatim>\<open>pruneParameters\<close>.
  The repository (the HTTP transport) and \<^verbatim>\<open>encoding/json\<close> are collaborators of the
  service and are parameters of every definition.
\<close>

subsection \<open>Data model\<close>

type_synonym int32 = "32 word"

text \<open>
  Go's \<^verbatim>\<open>error\<close> values. A transport failure is any error value the repository returns;
  \<open>StackedErrors\<close> is the compound value built by \<^verbatim>\<open>customerrors.StackErrors\<close>.
\<close>

datatype error = TransportError string | StackedErrors "error list"

text \<open>
  \<^verbatim>\<open>AppRule\<close>, \<^verbatim>\<open>AppParameters\<close> and \<^verbatim>\<open>App\<close>. The identifier is a \<^verbatim>\<open>*int32\<close>
  (the code tests it against \<^verbatim>\<open>nil\<close> and dereferences it): \<open>None\<close> is the nil pointer.
  The remaining fields of each struct are not touched by the service and are kept as one
  opaque value. A Go map \<^verbatim>\<open>map[string]AppParameters\<close> is an association list whose order
  is the order in which one run of \<^verbatim>\<open>range\<close> visits the entries.
\<close>

record app_rule =
  rule_ID :: "int32 option"
  rule_fields :: string

record app_parameters =
  param_ID :: "int32 option"
  param_fields :: string

record app =
  app_ID :: "int32 option"
  app_Rules :: "app_rule list"
  app_Parameters :: "(string \<times> app_parameters) list"
  app_fields :: string

text \<open>The zero value of \<^verbatim>\<open>App\<close>, as \<^verbatim>\<open>var newApp App\<close> declares it.\<close>

definition zero_App :: app where
  "zero_App = \<lparr>app_ID = None, app_Rules = [], app_Parameters = [], app_fields = []\<rparr>"

subsection \<open>Requests, the repository and the JSON decoder\<close>

datatype payload = NoPayload | AppPayload app | RulePayload app_rule

record request =
  URL :: string
  Headers :: "(string \<times> string) list"
  AuthMethod :: string
  Payload :: payload

datatype verb = VCreate | VRead | VUpdate | VDestroy

type_synonym call = "verb \<times> request"

text \<open>
  \<^verbatim>\<open>services.Repository\<close>: four verbs, each from a request to a pair of a body and an
  error (\<open>None\<close> is Go's nil error). The remote store is a state \<open>'w\<close> that every call may
  read and change; \<open>'b\<close> is the type of response bodies.
\<close>

record ('w, 'b) repository =
  repo_Create :: "request \<Rightarrow> 'w \<Rightarrow> ('b \<times> error option) \<times> 'w"
  repo_Read :: "request \<Rightarrow> 'w \<Rightarrow> ('b \<times> error option) \<times> 'w"
  repo_Update :: "request \<Rightarrow> 'w \<Rightarrow> ('b \<times> error option) \<times> 'w"
  repo_Destroy :: "request \<Rightarrow> 'w \<Rightarrow> ('b \<times> error option) \<times> 'w"

record ('w, 'b) v2service =
  Endpoint :: string
  ErrorContext :: string
  Repository :: "('w, 'b) repository"

text \<open>
  \<^verbatim>\<open>json.Unmarshal(resp, &v)\<close> on a freshly declared \<open>v\<close>, its error ignored as the
  service ignores it: the value \<open>v\<close> holds afterwards, for the three target types the
  service decodes into (\<^verbatim>\<open>App\<close>, \<^verbatim>\<open>[]AppRule\<close> and \<^verbatim>\<open>map[string]int\<close>).
\<close>

record 'b json =
  unmarshal_App :: "'b \<Rightarrow> app"
  unmarshal_Rules :: "'b \<Rightarrow> app_rule list"
  unmarshal_ids :: "'b \<Rightarrow> (string \<rightharpoonup> int)"

text \<open>
  The state of a run: the remote store and the calls issued so far, oldest first.
  A nil-pointer dereference is the outcome \<open>Panic\<close>; it ends the operation at once.
\<close>

type_synonym 'w st = "'w \<times> call list"

datatype 'a res = Panic | Ret 'a

definition call_repo ::
  "('w, 'b) repository \<Rightarrow> verb \<Rightarrow> request \<Rightarrow> 'w st \<Rightarrow> ('b \<times> error option) \<times> 'w st" where
  "call_repo R v rq s =
     (case (case v of VCreate \<Rightarrow> repo_Create R rq (fst s)
                    | VRead \<Rightarrow> repo_Read R rq (fst s)
                    | VUpdate \<Rightarrow> repo_Update R rq (fst s)
                    | VDestroy \<Rightarrow> repo_Destroy R rq (fst s)) of
        (out, w') \<Rightarrow> (out, (w', snd s @ [(v, rq)])))"

subsection \<open>URLs\<close>

text \<open>The verb \<^verbatim>\<open>%d\<close> of \<^verbatim>\<open>fmt.Sprintf\<close>: a signed decimal numeral.\<close>

definition digit_char :: "nat \<Rightarrow> char" where
  "digit_char n = char_of (48 + n)"

function digits :: "nat \<Rightarrow> string" where
  "digits n = (if n < 10 then [digit_char n] else digits (n div 10) @ [digit_char (n mod 10)])"
  by pat_completeness auto
termination
  by (relation "measure id") auto

declare digits.simps [simp del]

definition fmt_d :: "int \<Rightarrow> string" where
  "fmt_d i = (if i < 0 then CHR ''-'' # digits (nat (- i)) else digits (nat i))"

definition json_request :: "string \<Rightarrow> payload \<Rightarrow> request" where
  "json_request u p =
     \<lparr>URL = u, Headers = [(''Content-Type'', ''application/json'')],
      AuthMethod = ''bearer'', Payload = p\<rparr>"

definition app_url :: "string \<Rightarrow> int32 \<Rightarrow> string" where
  "app_url ep a = ep @ ''/'' @ fmt_d (sint a)"

definition rules_url :: "string \<Rightarrow> int32 \<Rightarrow> string" where
  "rules_url ep a = ep @ ''/'' @ fmt_d (sint a) @ ''/rules''"

definition rule_url :: "string \<Rightarrow> int32 \<Rightarrow> int32 \<Rightarrow> string" where
  "rule_url ep a r = ep @ ''/'' @ fmt_d (sint a) @ ''/rules/'' @ fmt_d (sint r)"

definition parameter_url :: "string \<Rightarrow> int32 \<Rightarrow> int32 \<Rightarrow> string" where
  "parameter_url ep a p = ep @ ''/'' @ fmt_d (sint a) @ ''/parameters/'' @ fmt_d (sint p)"

definition errAppsV2Context :: string where
  "errAppsV2Context = ''apps v2 service''"

definition New :: "('w, 'b) repository \<Rightarrow> string \<Rightarrow> ('w, 'b) v2service" where
  "New repo host =
     \<lparr>Endpoint = host @ ''/api/2/apps'', ErrorContext = errAppsV2Context, Repository = repo\<rparr>"

subsection \<open>The error aggregator\<close>

text \<open>
  Modelled from the spec: \<^verbatim>\<open>customerrors.StackErrors\<close> (package
  \<^verbatim>\<open>internal/customerrors\<close>) is not among the sources. The specification of the error
  aggregator reads: it returns "no error" for an empty input; otherwise it wraps all
  collected errors into one compound value whose textual form concatenates each
  constituent's message, preserving encounter order; it never discards an error and never
  deduplicates.
\<close>

definition StackErrors :: "error list \<Rightarrow> error option" where
  "StackErrors errs = (if errs = [] then None else Some (StackedErrors errs))"

fun error_message :: "error \<Rightarrow> string" where
  "error_message (TransportError m) = m"
| "error_message (StackedErrors es) = concat (map error_message es)"

text \<open>The constituent failures of an error value a batch operation returns.\<close>

fun constituents :: "error option \<Rightarrow> error list" where
  "constituents None = []"
| "constituents (Some (StackedErrors es)) = es"
| "constituents (Some e) = [e]"

subsection \<open>The upsert executor: \<^verbatim>\<open>saveAppRules\<close>\<close>

text \<open>\<^verbatim>\<open>ruleID["id"]\<close>: a missing key reads as the zero value.\<close>

definition lookup_id :: "(string \<rightharpoonup> int) \<Rightarrow> int" where
  "lookup_id m = (case m ''id'' of None \<Rightarrow> 0 | Some v \<Rightarrow> v)"

text \<open>
  One iteration of the loop of \<^verbatim>\<open>saveAppRules\<close> on the rule \<^verbatim>\<open>app.Rules[i]\<close>: an
  Update at the rule's endpoint when the rule has an identifier, a Create at the collection
  endpoint otherwise. Both URLs dereference \<^verbatim>\<open>app.ID\<close> before the call is made. The
  result is the rule as the iteration leaves it and the error of the call.
  \<^verbatim>\<open>int32(ruleID["id"])\<close> keeps the low 32 bits of the decoded integer.
\<close>

definition save_rule ::
  "('w, 'b) v2service \<Rightarrow> 'b json \<Rightarrow> int32 option \<Rightarrow> app_rule \<Rightarrow> 'w st
     \<Rightarrow> (app_rule \<times> error option) res \<times> 'w st" where
  "save_rule svc J aid r s =
     (case aid of
        None \<Rightarrow> (Panic, s)
      | Some a \<Rightarrow>
          (case (case rule_ID r of
                   Some rid \<Rightarrow>
                     call_repo (Repository svc) VUpdate
                       (json_request (rule_url (Endpoint svc) a rid) (RulePayload r)) s
                 | None \<Rightarrow>
                     call_repo (Repository svc) VCreate
                       (json_request (rules_url (Endpoint svc) a) (RulePayload r)) s) of
             ((resp, err), s') \<Rightarrow>
               (case err of
                  Some e \<Rightarrow> (Ret (r, Some e), s')
                | None \<Rightarrow>
                    (Ret (r\<lparr>rule_ID := Some (word_of_int (lookup_id (unmarshal_ids J resp)))\<rparr>,
                          None), s'))))"

text \<open>
  The loop over \<^verbatim>\<open>app.Rules\<close>, with \<^verbatim>\<open>writeErrors\<close> as it grows. It returns the rules
  as the loop leaves them and the errors collected.
\<close>

fun save_loop ::
  "('w, 'b) v2service \<Rightarrow> 'b json \<Rightarrow> int32 option \<Rightarrow> app_rule list \<Rightarrow> error list \<Rightarrow> 'w st
     \<Rightarrow> (app_rule list \<times> error list) res \<times> 'w st" where
  "save_loop svc J aid [] writeErrors s = (Ret ([], writeErrors), s)"
| "save_loop svc J aid (r # rs) writeErrors s =
     (case save_rule svc J aid r s of
        (Panic, s') \<Rightarrow> (Panic, s')
      | (Ret (r', err), s') \<Rightarrow>
          (case save_loop svc J aid rs
                  (case err of None \<Rightarrow> writeErrors | Some e \<Rightarrow> writeErrors @ [e]) s' of
             (Panic, s'') \<Rightarrow> (Panic, s'')
           | (Ret (rs', errs), s'') \<Rightarrow> (Ret (r' # rs', errs), s'')))"

text \<open>
  \<^verbatim>\<open>saveAppRules\<close> mutates the rules of the app it is given; the model returns the app
  with the rules as the loop leaves them, next to the aggregated error.
\<close>

definition saveAppRules ::
  "('w, 'b) v2service \<Rightarrow> 'b json \<Rightarrow> app \<Rightarrow> 'w st \<Rightarrow> (app \<times> error option) res \<times> 'w st" where
  "saveAppRules svc J ap s =
     (case save_loop svc J (app_ID ap) (app_Rules ap) [] s of
        (Panic, s') \<Rightarrow> (Panic, s')
      | (Ret (rs, writeErrors), s') \<Rightarrow> (Ret (ap\<lparr>app_Rules := rs\<rparr>, StackErrors writeErrors), s'))"

subsection \<open>The reconciler: \<^verbatim>\<open>pruneAppRules\<close> and \<^verbatim>\<open>pruneParameters\<close>\<close>

text \<open>
  The first loop of both prune functions: \<^verbatim>\<open>keepMap[*x.ID] = true\<close> for every requested
  item, given here by the identifiers of the items in the order the loop visits them.
  Dereferencing a nil identifier panics.
\<close>

fun build_keepMap :: "int32 option list \<Rightarrow> (int32 \<rightharpoonup> bool) \<Rightarrow> (int32 \<rightharpoonup> bool) res" where
  "build_keepMap [] keepMap = Ret keepMap"
| "build_keepMap (None # ids) keepMap = Panic"
| "build_keepMap (Some i # ids) keepMap = build_keepMap ids (keepMap(i \<mapsto> True))"

text \<open>\<^verbatim>\<open>keepMap[k]\<close>: a missing key reads as \<^verbatim>\<open>false\<close>.\<close>

definition kept :: "(int32 \<rightharpoonup> bool) \<Rightarrow> int32 \<Rightarrow> bool" where
  "kept keepMap k = (case keepMap k of None \<Rightarrow> False | Some b \<Rightarrow> b)"

text \<open>
  The second loop of both prune functions, over the identifiers of the delete candidates:
  the candidate's identifier is dereferenced for the test \<^verbatim>\<open>!keepMap[*delCandidate.ID]\<close>;
  when the candidate is not kept, the URL is built (dereferencing \<^verbatim>\<open>app.ID\<close>) and a
  Destroy is issued, whose error, if any, is appended to \<^verbatim>\<open>delErrors\<close>.
\<close>

fun destroy_loop ::
  "('w, 'b) repository \<Rightarrow> (int32 \<Rightarrow> int32 \<Rightarrow> string) \<Rightarrow> int32 option \<Rightarrow> (int32 \<rightharpoonup> bool)
     \<Rightarrow> int32 option list \<Rightarrow> error list \<Rightarrow> 'w st \<Rightarrow> error list res \<times> 'w st" where
  "destroy_loop R url aid keepMap [] delErrors s = (Ret delErrors, s)"
| "destroy_loop R url aid keepMap (None # cs) delErrors s = (Panic, s)"
| "destroy_loop R url aid keepMap (Some c # cs) delErrors s =
     (if \<not> kept keepMap c then
        (case aid of
           None \<Rightarrow> (Panic, s)
         | Some a \<Rightarrow>
             (case call_repo R VDestroy (json_request (url a c) NoPayload) s of
                ((resp, err), s') \<Rightarrow>
                  destroy_loop R url aid keepMap cs
                    (case err of None \<Rightarrow> delErrors | Some e \<Rightarrow> delErrors @ [e]) s'))
      else destroy_loop R url aid keepMap cs delErrors s)"

text \<open>
  \<^verbatim>\<open>pruneParameters\<close>: the delete candidates are the parameters of the app it is given;
  nothing is read from the repository.
\<close>

definition pruneParameters ::
  "('w, 'b) v2service \<Rightarrow> (string \<times> app_parameters) list \<Rightarrow> app \<Rightarrow> 'w st
     \<Rightarrow> error option res \<times> 'w st" where
  "pruneParameters svc requestedParams ap s =
     (case build_keepMap (map (\<lambda>(k, param). param_ID param) requestedParams) Map.empty of
        Panic \<Rightarrow> (Panic, s)
      | Ret keepMap \<Rightarrow>
          (case destroy_loop (Repository svc) (parameter_url (Endpoint svc)) (app_ID ap) keepMap
                  (map (\<lambda>(k, delCandidate). param_ID delCandidate) (app_Parameters ap)) [] s of
             (Panic, s') \<Rightarrow> (Panic, s')
           | (Ret delErrors, s') \<Rightarrow> (Ret (StackErrors delErrors), s')))"

text \<open>
  \<^verbatim>\<open>pruneAppRules\<close>: the rules of the app are read again from the repository; the error
  of that Read is dropped (\<^verbatim>\<open>resp, _ := ...\<close>) and the body decoded whatever it is.
\<close>

definition pruneAppRules ::
  "('w, 'b) v2service \<Rightarrow> 'b json \<Rightarrow> app_rule list \<Rightarrow> app \<Rightarrow> 'w st
     \<Rightarrow> error option res \<times> 'w st" where
  "pruneAppRules svc J requestedRules ap s =
     (case app_ID ap of
        None \<Rightarrow> (Panic, s)
      | Some a \<Rightarrow>
          (case call_repo (Repository svc) VRead
                  (json_request (rules_url (Endpoint svc) a) NoPayload) s of
             ((resp, err), s1) \<Rightarrow>
               (case build_keepMap (map rule_ID requestedRules) Map.empty of
                  Panic \<Rightarrow> (Panic, s1)
                | Ret keepMap \<Rightarrow>
                    (case destroy_loop (Repository svc) (rule_url (Endpoint svc)) (Some a) keepMap
                            (map rule_ID (unmarshal_Rules J resp)) [] s1 of
                       (Panic, s2) \<Rightarrow> (Panic, s2)
                     | (Ret delErrors, s2) \<Rightarrow> (Ret (StackErrors delErrors), s2)))))"

subsection \<open>The orchestrator: \<^verbatim>\<open>GetOne\<close>, \<^verbatim>\<open>Create\<close>, \<^verbatim>\<open>Update\<close>, \<^verbatim>\<open>Destroy\<close>\<close>

text \<open>
  An operation returns a pair \<^verbatim>\<open>(*App, error)\<close>: the first component is \<open>None\<close> for the
  nil pointer, the second is \<open>None\<close> for the nil error.
\<close>

definition GetOne ::
  "('w, 'b) v2service \<Rightarrow> 'b json \<Rightarrow> int32 \<Rightarrow> 'w st \<Rightarrow> (app option \<times> error option) res \<times> 'w st" where
  "GetOne svc J aid s =
     (case call_repo (Repository svc) VRead
             (json_request (app_url (Endpoint svc) aid) NoPayload) s of
        ((resp, err), s1) \<Rightarrow>
          (case err of
             Some e \<Rightarrow> (Ret (None, Some e), s1)
           | None \<Rightarrow>
               (case app_ID (unmarshal_App J resp) of
                  None \<Rightarrow> (Panic, s1)
                | Some a \<Rightarrow>
                    (case call_repo (Repository svc) VRead
                            (json_request (rules_url (Endpoint svc) a) NoPayload) s1 of
                       ((resp2, err2), s2) \<Rightarrow>
                         (case err2 of
                            Some e \<Rightarrow> (Ret (Some (unmarshal_App J resp), Some e), s2)
                          | None \<Rightarrow>
                              (Ret (Some ((unmarshal_App J resp)
                                            \<lparr>app_Rules := unmarshal_Rules J resp2\<rparr>), None),
                               s2))))))"

text \<open>
  The recovery read both operations make after a failed batch: \<^verbatim>\<open>GetOne(*a.ID)\<close>, then
  \<^verbatim>\<open>return nil, err\<close> when the read fails and \<^verbatim>\<open>return recoveredAppState, ret\<close>
  otherwise. \<open>err\<close> is the value the variable \<^verbatim>\<open>err\<close> holds at that point of the
  function, \<open>ret\<close> the error returned with the recovered app.
\<close>

definition recover ::
  "('w, 'b) v2service \<Rightarrow> 'b json \<Rightarrow> app \<Rightarrow> error option \<Rightarrow> error option \<Rightarrow> 'w st
     \<Rightarrow> (app option \<times> error option) res \<times> 'w st" where
  "recover svc J a err ret s =
     (case app_ID a of
        None \<Rightarrow> (Panic, s)
      | Some i \<Rightarrow>
          (case GetOne svc J i s of
             (Panic, s') \<Rightarrow> (Panic, s')
           | (Ret (recoveredAppState, recoverErr), s') \<Rightarrow>
               (if recoverErr \<noteq> None then (Ret (None, err), s')
                else (Ret (recoveredAppState, ret), s'))))"

text \<open>The closing \<^verbatim>\<open>return svc.GetOne(*a.ID)\<close> of both operations.\<close>

definition reread ::
  "('w, 'b) v2service \<Rightarrow> 'b json \<Rightarrow> app \<Rightarrow> 'w st \<Rightarrow> (app option \<times> error option) res \<times> 'w st" where
  "reread svc J a s = (case app_ID a of None \<Rightarrow> (Panic, s) | Some i \<Rightarrow> GetOne svc J i s)"

definition Create ::
  "('w, 'b) v2service \<Rightarrow> 'b json \<Rightarrow> app \<Rightarrow> 'w st \<Rightarrow> (app option \<times> error option) res \<times> 'w st" where
  "Create svc J ap s =
     (case call_repo (Repository svc) VCreate
             (json_request (Endpoint svc) (AppPayload ap)) s of
        ((resp, err), s1) \<Rightarrow>
          (case err of
             Some e \<Rightarrow> (Ret (Some zero_App, Some e), s1)
           | None \<Rightarrow>
               (case saveAppRules svc J ((unmarshal_App J resp)\<lparr>app_Rules := app_Rules ap\<rparr>) s1 of
                  (Panic, s2) \<Rightarrow> (Panic, s2)
                | (Ret (newApp, err'), s2) \<Rightarrow>
                    (if err' \<noteq> None then recover svc J newApp err' err' s2
                     else reread svc J newApp s2))))"

text \<open>
  \<^verbatim>\<open>Update\<close>. The assignment \<^verbatim>\<open>updatedApp.Rules = app.Rules\<close> copies a slice header, so
  both slices share one backing array: the identifiers \<^verbatim>\<open>saveAppRules\<close> writes into
  \<^verbatim>\<open>updatedApp.Rules[i]\<close> are the ones \<^verbatim>\<open>pruneAppRules(&app.Rules, ...)\<close> reads.
  The requested rules of the prune are therefore the rules as \<^verbatim>\<open>saveAppRules\<close> left them.
  The requested parameters are the caller's. After \<^verbatim>\<open>saveAppRules\<close> has returned nil the
  variable \<^verbatim>\<open>err\<close> is nil, and it is this variable that the failed recovery read after a
  failed prune returns.
\<close>

definition Update ::
  "('w, 'b) v2service \<Rightarrow> 'b json \<Rightarrow> int32 \<Rightarrow> app \<Rightarrow> 'w st
     \<Rightarrow> (app option \<times> error option) res \<times> 'w st" where
  "Update svc J aid ap s =
     (case call_repo (Repository svc) VUpdate
             (json_request (app_url (Endpoint svc) aid) (AppPayload ap)) s of
        ((resp, err), s1) \<Rightarrow>
          (case err of
             Some e \<Rightarrow> (Ret (Some zero_App, Some e), s1)
           | None \<Rightarrow>
               (case saveAppRules svc J ((unmarshal_App J resp)\<lparr>app_Rules := app_Rules ap\<rparr>) s1 of
                  (Panic, s2) \<Rightarrow> (Panic, s2)
                | (Ret (updatedApp, err'), s2) \<Rightarrow>
                    (if err' \<noteq> None then recover svc J updatedApp err' err' s2
                     else
                       (case pruneAppRules svc J (app_Rules updatedApp) updatedApp s2 of
                          (Panic, s3) \<Rightarrow> (Panic, s3)
                        | (Ret pruneRuleErr, s3) \<Rightarrow>
                            (case pruneParameters svc (app_Parameters ap) updatedApp s3 of
                               (Panic, s4) \<Rightarrow> (Panic, s4)
                             | (Ret pruneParamErr, s4) \<Rightarrow>
                                 (if pruneRuleErr \<noteq> None \<or> pruneParamErr \<noteq> None then
                                    recover svc J updatedApp err'
                                      (if pruneRuleErr \<noteq> None then pruneRuleErr
                                       else pruneParamErr) s4
                                  else reread svc J updatedApp s4)))))))"

definition Destroy :: "('w, 'b) v2service \<Rightarrow> int32 \<Rightarrow> 'w st \<Rightarrow> error option \<times> 'w st" where
  "Destroy svc aid s =
     (case call_repo (Repository svc) VDestroy
             (json_request (app_url (Endpoint svc) aid) NoPayload) s of
        ((resp, err), s') \<Rightarrow> (err, s'))"

subsection \<open>Notions used to state the properties\<close>

text \<open>The calls issued between two states of a run.\<close>

definition issued :: "'w st \<Rightarrow> 'w st \<Rightarrow> call list" where
  "issued s s' = drop (length (snd s)) (snd s')"

text \<open>
  The transport call the upsert executor is specified to make for one child item: if the
  item carries an identifier, an Update at the child's identified endpoint; else a Create
  at the collection endpoint.
\<close>

definition rule_call :: "string \<Rightarrow> int32 \<Rightarrow> app_rule \<Rightarrow> call" where
  "rule_call ep a r =
     (case rule_ID r of
        Some rid \<Rightarrow> (VUpdate, json_request (rule_url ep a rid) (RulePayload r))
      | None \<Rightarrow> (VCreate, json_request (rules_url ep a) (RulePayload r)))"

text \<open>
  The specification's "no fail-fast" batch, written from its words and not from the code:
  the call of every item is attempted, in the collection's order, whatever the outcome
  of the calls before it. The result is the outcome (body and error) of each call and the
  state after the last one.
\<close>

fun attempt_all ::
  "('w, 'b) repository \<Rightarrow> string \<Rightarrow> int32 \<Rightarrow> app_rule list \<Rightarrow> 'w st
     \<Rightarrow> ('b \<times> error option) list \<times> 'w st" where
  "attempt_all R ep a [] s = ([], s)"
| "attempt_all R ep a (r # rs) s =
     (case call_repo R (fst (rule_call ep a r)) (snd (rule_call ep a r)) s of
        (out, s') \<Rightarrow>
          (case attempt_all R ep a rs s' of (outs, s'') \<Rightarrow> (out # outs, s'')))"

text \<open>The errors among a list of outcomes, in order.\<close>

definition failures :: "('b \<times> error option) list \<Rightarrow> error list" where
  "failures outs = List.map_filter snd outs"

text \<open>
  The identifier the upsert executor binds onto an item whose call returned the body
  \<open>resp\<close> without error.
\<close>

definition bound_id :: "'b json \<Rightarrow> 'b \<Rightarrow> int32" where
  "bound_id J resp = word_of_int (lookup_id (unmarshal_ids J resp))"

definition bind_outcome :: "'b json \<Rightarrow> app_rule \<Rightarrow> 'b \<times> error option \<Rightarrow> app_rule" where
  "bind_outcome J r out =
     (case snd out of Some e \<Rightarrow> r | None \<Rightarrow> r\<lparr>rule_ID := Some (bound_id J (fst out))\<rparr>)"

text \<open>The Destroy call of \<^verbatim>\<open>pruneAppRules\<close> for the rule \<open>c\<close> of the app \<open>a\<close>.\<close>

definition destroy_rule_call :: "string \<Rightarrow> int32 \<Rightarrow> int32 \<Rightarrow> call" where
  "destroy_rule_call ep a c = (VDestroy, json_request (rule_url ep a c) NoPayload)"

definition read_rules_call :: "string \<Rightarrow> int32 \<Rightarrow> call" where
  "read_rules_call ep a = (VRead, json_request (rules_url ep a) NoPayload)"

text \<open>
  The identifiers of the remote rules the delete loop gets through: those before the first
  rule that has no identifier (all of them when every remote rule has one).
\<close>

definition identified_prefix :: "app_rule list \<Rightarrow> int32 list" where
  "identified_prefix rs = map (\<lambda>r. the (rule_ID r)) (takeWhile (\<lambda>r. rule_ID r \<noteq> None) rs)"

subsection \<open>A scripted repository for concrete runs\<close>

text \<open>
  A test double in the manner of a mock repository: response bodies are already-parsed
  documents, and the store is the list of responses still to be given, one per call
  whatever the verb. A call on the exhausted script fails.
\<close>

datatype doc = DNil | DApp app | DRules "app_rule list" | DIds "(string \<times> int) list"

definition doc_json :: "doc json" where
  "doc_json =
     \<lparr>unmarshal_App = (\<lambda>b. case b of DApp a \<Rightarrow> a | _ \<Rightarrow> zero_App),
      unmarshal_Rules = (\<lambda>b. case b of DRules rs \<Rightarrow> rs | _ \<Rightarrow> []),
      unmarshal_ids = (\<lambda>b. case b of DIds kvs \<Rightarrow> map_of kvs | _ \<Rightarrow> Map.empty)\<rparr>"

definition next_response :: "request \<Rightarrow> (doc \<times> error option) list \<Rightarrow> (doc \<times> error option) \<times> (doc \<times> error option) list" where
  "next_response rq w =
     (case w of [] \<Rightarrow> ((DNil, Some (TransportError ''script exhausted'')), [])
              | out # w' \<Rightarrow> (out, w'))"

definition scripted :: "((doc \<times> error option) list, doc) repository" where
  "scripted =
     \<lparr>repo_Create = next_response, repo_Read = next_response,
      repo_Update = next_response, repo_Destroy = next_response\<rparr>"

definition svc0 :: "((doc \<times> error option) list, doc) v2service" where
  "svc0 = New scripted ''h''"

definition ep0 :: string where
  "ep0 = ''h/api/2/apps''"

definition rule_of :: "int32 option \<Rightarrow> app_rule" where
  "rule_of i = \<lparr>rule_ID = i, rule_fields = []\<rparr>"

definition param_of :: "int32 option \<Rightarrow> app_parameters" where
  "param_of i = \<lparr>param_ID = i, param_fields = []\<rparr>"

definition app_of :: "int32 option \<Rightarrow> app_rule list \<Rightarrow> (string \<times> app_parameters) list \<Rightarrow> app" where
  "app_of i rs ps = \<lparr>app_ID = i, app_Rules = rs, app_Parameters = ps, app_fields = []\<rparr>"

definition boom :: error where
  "boom = TransportError ''boom''"



section \<open>Properties\<close>

subsection \<open>URLs determine the identifier\<close>

lemma digits_lt10: "n < 10 \<Longrightarrow> digits n = [digit_char n]"
  by (simp add: digits.simps)

lemma digits_ge10: "\<not> n < 10 \<Longrightarrow> digits n = digits (n div 10) @ [digit_char (n mod 10)]"
  by (subst digits.simps) simp

lemma digits_nonempty: "digits n \<noteq> []"
  by (subst digits.simps) simp

lemma digit_char_inj: "a < 10 \<Longrightarrow> b < 10 \<Longrightarrow> digit_char a = digit_char b \<Longrightarrow> a = b"
proof -
  assume a: "a < 10" and b: "b < 10" and e: "digit_char a = digit_char b"
  from e have "(of_char (char_of (48 + a)) :: nat) = of_char (char_of (48 + b))"
    by (simp add: digit_char_def)
  then have "(48 + a) mod 256 = (48 + b) mod 256"
    by (simp only: of_char_of)
  with a b show "a = b" by simp
qed

lemma digit_char_not_minus: "a < 10 \<Longrightarrow> digit_char a \<noteq> CHR ''-''"
proof
  assume a: "a < 10" and e: "digit_char a = CHR ''-''"
  from e have "(of_char (char_of (48 + a)) :: nat) = of_char (CHR ''-'')"
    by (simp add: digit_char_def)
  then have "(48 + a) mod 256 = 45"
    by (simp only: of_char_of) simp
  with a show False by simp
qed

lemma digits_no_minus: "CHR ''-'' \<notin> set (digits n)"
proof (induction n rule: digits.induct)
  case (1 n)
  show ?case
  proof (cases "n < 10")
    case True
    then show ?thesis using digit_char_not_minus[of n] by (auto simp add: digits_lt10)
  next
    case False
    then show ?thesis using 1[OF False] digit_char_not_minus[of "n mod 10"]
      by (auto simp add: digits_ge10)
  qed
qed

lemma digits_inj: "digits n = digits m \<Longrightarrow> n = m"
proof (induction n arbitrary: m rule: digits.induct)
  case (1 n)
  show ?case
  proof (cases "n < 10")
    case True
    show ?thesis
    proof (cases "m < 10")
      case mt: True
      with True 1(2) show ?thesis by (simp add: digits_lt10 digit_char_inj)
    next
      case False
      with True 1(2) show ?thesis using digits_nonempty[of "m div 10"] by (simp add: digits_lt10 digits_ge10)
    qed
  next
    case False
    show ?thesis
    proof (cases "m < 10")
      case True
      with False 1(2) show ?thesis using digits_nonempty[of "n div 10"] by (simp add: digits_lt10 digits_ge10)
    next
      case mf: False
      from False mf 1(2) have "digits (n div 10) = digits (m div 10)" and "digit_char (n mod 10) = digit_char (m mod 10)"
        by (simp_all add: digits_ge10)
      then have "n div 10 = m div 10" "n mod 10 = m mod 10"
        using 1(1)[OF False] by (auto intro: digit_char_inj)
      then show ?thesis by (metis div_mult_mod_eq)
    qed
  qed
qed

lemma fmt_d_inj: "fmt_d i = fmt_d j \<Longrightarrow> i = j"
proof -
  assume e: "fmt_d i = fmt_d j"
  have neg: "CHR ''-'' # digits a \<noteq> digits b" for a b
    using digits_no_minus[of b] by (metis list.set_intros(1))
  show "i = j"
  proof (cases "i < 0")
    case True
    show ?thesis
    proof (cases "j < 0")
      case jt: True
      with True e have "nat (- i) = nat (- j)" by (auto simp: fmt_d_def dest: digits_inj)
      with True jt show ?thesis by simp
    next
      case False
      with True e neg show ?thesis by (simp add: fmt_d_def)
    qed
  next
    case False
    show ?thesis
    proof (cases "j < 0")
      case True
      with False e neg[of "nat (- j)" "nat i"] show ?thesis by (simp add: fmt_d_def)
    next
      case jf: False
      with False e have "nat i = nat j" by (auto simp: fmt_d_def dest: digits_inj)
      with False jf show ?thesis by simp
    qed
  qed
qed

lemma rule_url_inj: "rule_url ep a r = rule_url ep a r' \<Longrightarrow> r = r'"
  by (auto simp: rule_url_def dest!: fmt_d_inj signed_word_eqI)

lemma parameter_url_inj: "parameter_url ep a r = parameter_url ep a r' \<Longrightarrow> r = r'"
  by (auto simp: parameter_url_def dest!: fmt_d_inj signed_word_eqI)

lemma rule_url_example: "rule_url ''h/api/2/apps'' 5 1 = ''h/api/2/apps/5/rules/1''"
  by code_simp
lemma rule_url_negative_example: "rule_url ''h/api/2/apps'' 5 (-12) = ''h/api/2/apps/5/rules/-12''"
  by code_simp

subsection \<open>Calls and the loops\<close>

lemma call_repo_calls: "call_repo R v rq s = (out, s') \<Longrightarrow> snd s' = snd s @ [(v, rq)]"
  by (auto simp: call_repo_def split: prod.splits)

lemma issued_refl: "issued s s = []"
  by (simp add: issued_def)

lemma issued_append: "snd s' = snd s @ cs \<Longrightarrow> issued s s' = cs"
  by (simp add: issued_def)

lemma scripted_call:
  "call_repo (Repository svc0) v rq (out # w, cs) = (out, (w, cs @ [(v, rq)]))"
  by (cases v) (simp_all add: call_repo_def svc0_def New_def scripted_def next_response_def)

lemma svc0_Endpoint: "Endpoint svc0 = ep0"
  by (simp add: svc0_def New_def ep0_def)

lemma save_rule_call:
  "save_rule svc J (Some a) r s =
     (case call_repo (Repository svc) (fst (rule_call (Endpoint svc) a r))
             (snd (rule_call (Endpoint svc) a r)) s of
        (out, s') \<Rightarrow> (Ret (bind_outcome J r out, snd out), s'))"
  by (cases "rule_ID r")
     (auto simp: save_rule_def rule_call_def bind_outcome_def bound_id_def split: prod.splits option.splits)

lemma failures_Cons: "failures ((b, e) # outs) = (case e of None \<Rightarrow> failures outs | Some x \<Rightarrow> x # failures outs)"
  by (simp add: failures_def List.map_filter_def split: option.splits)

lemma failures_Nil: "failures [] = []"
  by (simp add: failures_def List.map_filter_def)

lemma save_loop_attempt_all:
  "save_loop svc J (Some a) rs writeErrors s =
     (case attempt_all (Repository svc) (Endpoint svc) a rs s of
        (outs, s') \<Rightarrow> (Ret (map2 (bind_outcome J) rs outs, writeErrors @ failures outs), s'))"
proof (induction rs arbitrary: writeErrors s)
  case Nil
  show ?case by (simp add: failures_Nil)
next
  case (Cons r rs)
  show ?case
    by (simp add: save_rule_call Cons.IH failures_Cons split: prod.splits option.splits)
qed

lemma attempt_all_length: "attempt_all R ep a rs s = (outs, s') \<Longrightarrow> length outs = length rs"
  by (induction rs arbitrary: s outs s') (auto split: prod.splits)

lemma attempt_all_calls: "attempt_all R ep a rs s = (outs, s') \<Longrightarrow> snd s' = snd s @ map (rule_call ep a) rs"
proof (induction rs arbitrary: s outs s')
  case Nil
  then show ?case by simp
next
  case (Cons r rs)
  then show ?case
    by (auto split: prod.splits dest!: call_repo_calls)
qed

lemma attempt_all_append:
  "attempt_all R ep a (xs @ ys) s =
     (case attempt_all R ep a xs s of
        (outs, s') \<Rightarrow> (case attempt_all R ep a ys s' of (outs', s'') \<Rightarrow> (outs @ outs', s'')))"
  by (induction xs arbitrary: s) (auto split: prod.splits)

lemma build_keepMap_Panic: "None \<in> set ids \<Longrightarrow> build_keepMap ids m = Panic"
  by (induction ids m rule: build_keepMap.induct) auto

lemma build_keepMap_Ret: "None \<notin> set ids \<Longrightarrow> \<exists>m'. build_keepMap ids m = Ret m' \<and> (\<forall>k. kept m' k = (Some k \<in> set ids \<or> kept m k))"
  by (induction ids m rule: build_keepMap.induct) (auto simp: kept_def)

lemma destroy_loop_calls:
  "\<exists>res s'. destroy_loop R url (Some a) keepMap cs delErrors s = (res, s') \<and>
     (res = Panic \<longleftrightarrow> None \<in> set cs) \<and>
     snd s' = snd s @ map (\<lambda>c. (VDestroy, json_request (url a c) NoPayload))
                        (filter (\<lambda>c. \<not> kept keepMap c) (map the (takeWhile (\<lambda>c. c \<noteq> None) cs)))"
proof (induction cs arbitrary: delErrors s)
  case Nil
  show ?case by simp
next
  case (Cons c cs)
  show ?case
  proof (cases c)
    case None
    then show ?thesis by simp
  next
    case (Some i)
    show ?thesis
    proof (cases "kept keepMap i")
      case True
      with Cons.IH[of delErrors s] Some show ?thesis by simp
    next
      case False
      obtain resp err s1 where cr: "call_repo R VDestroy (json_request (url a i) NoPayload) s = ((resp, err), s1)"
        by (metis prod.exhaust)
      from call_repo_calls[OF cr] have s1: "snd s1 = snd s @ [(VDestroy, json_request (url a i) NoPayload)]" .
      from Cons.IH[of "case err of None \<Rightarrow> delErrors | Some e \<Rightarrow> delErrors @ [e]" s1]
      show ?thesis using Some False cr s1 by auto
    qed
  qed
qed

lemma identified_prefix_all:
  "\<forall>r\<in>set rs. rule_ID r \<noteq> None \<Longrightarrow> identified_prefix rs = map (\<lambda>r. the (rule_ID r)) rs"
proof -
  assume "\<forall>r\<in>set rs. rule_ID r \<noteq> None"
  then have "takeWhile (\<lambda>r. rule_ID r \<noteq> None) rs = rs"
    by (simp only: takeWhile_eq_all_conv)
  then show ?thesis by (simp only: identified_prefix_def)
qed

lemma identified_prefix_map:
  "map the (takeWhile (\<lambda>c. c \<noteq> None) (map rule_ID rs)) = identified_prefix rs"
  by (simp add: identified_prefix_def takeWhile_map comp_def)



subsection \<open>Delete-set correctness\<close>

text \<open>
  C1. For a parent with an identifier and a desired rule set whose items all carry
  identifiers, the calls \<^verbatim>\<open>pruneAppRules\<close> issues are the Read of the remote rules followed
  by one Destroy for each remote rule whose identifier does not occur among the desired
  identifiers, in the order of the remote set, and nothing else; no Destroy it issues is
  the Destroy of a desired identifier. The remote set is what the body of that Read
  decodes to. When every remote rule carries an identifier the function returns and these
  are all the remote rules; a remote rule decoded without identifier makes the loop panic
  when it reaches it, and the Destroys are those of the rules before it.
\<close>

theorem pruneAppRules_destroys_exactly:
  assumes ap: "app_ID ap = Some a"
    and req: "\<forall>r\<in>set requestedRules. rule_ID r \<noteq> None"
    and rd: "call_repo (Repository svc) VRead (json_request (rules_url (Endpoint svc) a) NoPayload) s
               = ((resp, rerr), s1)"
  shows "\<exists>res s'. pruneAppRules svc J requestedRules ap s = (res, s') \<and>
           issued s s' = read_rules_call (Endpoint svc) a #
             map (destroy_rule_call (Endpoint svc) a)
               (filter (\<lambda>c. Some c \<notin> rule_ID ` set requestedRules)
                  (identified_prefix (unmarshal_Rules J resp))) \<and>
           (\<forall>d. Some d \<in> rule_ID ` set requestedRules \<longrightarrow>
                 destroy_rule_call (Endpoint svc) a d \<notin> set (issued s s')) \<and>
           ((\<forall>r\<in>set (unmarshal_Rules J resp). rule_ID r \<noteq> None) \<longrightarrow>
              res \<noteq> Panic \<and>
              issued s s' = read_rules_call (Endpoint svc) a #
                map (destroy_rule_call (Endpoint svc) a)
                  (filter (\<lambda>c. Some c \<notin> rule_ID ` set requestedRules)
                     (map (\<lambda>r. the (rule_ID r)) (unmarshal_Rules J resp))))"
proof -
  let ?ds = "filter (\<lambda>c. Some c \<notin> rule_ID ` set requestedRules)
                  (identified_prefix (unmarshal_Rules J resp))"
  from req have "None \<notin> set (map rule_ID requestedRules)" by auto
  from build_keepMap_Ret[OF this, of Map.empty]
  obtain keepMap where km: "build_keepMap (map rule_ID requestedRules) Map.empty = Ret keepMap"
    and kept: "\<And>k. kept keepMap k = (Some k \<in> rule_ID ` set requestedRules)"
    by (auto simp: kept_def)
  from destroy_loop_calls[of "Repository svc" "rule_url (Endpoint svc)" a keepMap
         "map rule_ID (unmarshal_Rules J resp)" "[]" s1]
  obtain r s' where dl: "destroy_loop (Repository svc) (rule_url (Endpoint svc)) (Some a) keepMap
        (map rule_ID (unmarshal_Rules J resp)) [] s1 = (r, s')"
    and pan: "r = Panic \<longleftrightarrow> None \<in> set (map rule_ID (unmarshal_Rules J resp))"
    and tr: "snd s' = snd s1 @ map (\<lambda>c. (VDestroy, json_request (rule_url (Endpoint svc) a c) NoPayload))
                        (filter (\<lambda>c. \<not> kept keepMap c) (identified_prefix (unmarshal_Rules J resp)))"
    unfolding identified_prefix_map by blast
  let ?res = "case r of Panic \<Rightarrow> Panic | Ret delErrors \<Rightarrow> Ret (StackErrors delErrors)"
  have res: "pruneAppRules svc J requestedRules ap s = (?res, s')"
    by (simp add: pruneAppRules_def ap rd km dl split: res.splits)
  have iss: "issued s s' = read_rules_call (Endpoint svc) a # map (destroy_rule_call (Endpoint svc) a) ?ds"
    using tr call_repo_calls[OF rd]
    by (simp add: issued_def kept read_rules_call_def destroy_rule_call_def[abs_def])
  have safe: "destroy_rule_call (Endpoint svc) a d \<notin> set (issued s s')"
    if "Some d \<in> rule_ID ` set requestedRules" for d
  proof
    assume "destroy_rule_call (Endpoint svc) a d \<in> set (issued s s')"
    with iss obtain c where "destroy_rule_call (Endpoint svc) a d = destroy_rule_call (Endpoint svc) a c"
      and "Some c \<notin> rule_ID ` set requestedRules"
      by (auto simp: read_rules_call_def destroy_rule_call_def)
    then show False using that
      by (auto simp: destroy_rule_call_def json_request_def dest!: rule_url_inj)
  qed
  have full: "?res \<noteq> Panic \<and>
              issued s s' = read_rules_call (Endpoint svc) a #
                map (destroy_rule_call (Endpoint svc) a)
                  (filter (\<lambda>c. Some c \<notin> rule_ID ` set requestedRules)
                     (map (\<lambda>r. the (rule_ID r)) (unmarshal_Rules J resp)))"
    if all: "\<forall>r\<in>set (unmarshal_Rules J resp). rule_ID r \<noteq> None"
  proof -
    from all have "None \<notin> set (map rule_ID (unmarshal_Rules J resp))" by auto
    with pan have "r \<noteq> Panic" by simp
    then have "?res \<noteq> Panic" by (cases r) auto
    with iss identified_prefix_all[OF all] show ?thesis by simp
  qed
  from res iss safe full show ?thesis by blast
qed

text \<open>Remote identifiers 1, 2, 3 and desired identifiers 2, 3: exactly 1 is destroyed.\<close>

theorem pruneAppRules_destroys_exactly_witness:
  "\<exists>res s'. pruneAppRules svc0 doc_json [rule_of (Some 2), rule_of (Some 3)] (app_of (Some 5) [] [])
       ([(DRules [rule_of (Some 1), rule_of (Some 2), rule_of (Some 3)], None), (DNil, None)], [])
       = (res, s') \<and> res \<noteq> Panic \<and>
     issued ([(DRules [rule_of (Some 1), rule_of (Some 2), rule_of (Some 3)], None), (DNil, None)], []) s'
       = [read_rules_call ep0 5, destroy_rule_call ep0 5 1]"
proof -
  let ?s = "([(DRules [rule_of (Some 1), rule_of (Some 2), rule_of (Some 3)], None), (DNil, None)], [])
              :: (doc \<times> error option) list st"
  let ?remote = "unmarshal_Rules doc_json (DRules [rule_of (Some 1), rule_of (Some 2), rule_of (Some 3)])"
  have rd: "call_repo (Repository svc0) VRead (json_request (rules_url (Endpoint svc0) 5) NoPayload) ?s
              = ((DRules [rule_of (Some 1), rule_of (Some 2), rule_of (Some 3)], None),
                 ([(DNil, None)], [] @ [(VRead, json_request (rules_url (Endpoint svc0) 5) NoPayload)]))"
    by (rule scripted_call)
  have ap: "app_ID (app_of (Some 5) [] []) = Some 5"
    by (simp add: app_of_def)
  have req: "\<forall>r\<in>set [rule_of (Some 2), rule_of (Some 3)]. rule_ID r \<noteq> None"
    by (simp add: rule_of_def)
  have rem: "\<forall>r\<in>set ?remote. rule_ID r \<noteq> None"
    by (simp add: rule_of_def doc_json_def)
  from pruneAppRules_destroys_exactly[OF ap req rd, of doc_json]
  obtain res s' where run: "pruneAppRules svc0 doc_json [rule_of (Some 2), rule_of (Some 3)]
                            (app_of (Some 5) [] []) ?s = (res, s')"
    and full: "(\<forall>r\<in>set ?remote. rule_ID r \<noteq> None) \<longrightarrow>
              res \<noteq> Panic \<and>
              issued ?s s' = read_rules_call (Endpoint svc0) 5 #
                map (destroy_rule_call (Endpoint svc0) 5)
                  (filter (\<lambda>c. Some c \<notin> rule_ID ` set [rule_of (Some 2), rule_of (Some 3)])
                     (map (\<lambda>r. the (rule_ID r)) ?remote))"
    by blast
  from full rem have ok: "res \<noteq> Panic"
    and iss: "issued ?s s' = read_rules_call (Endpoint svc0) 5 #
                map (destroy_rule_call (Endpoint svc0) 5)
                  (filter (\<lambda>c. Some c \<notin> rule_ID ` set [rule_of (Some 2), rule_of (Some 3)])
                     (map (\<lambda>r. the (rule_ID r)) ?remote))"
    by blast+
  have "issued ?s s' = [read_rules_call ep0 5, destroy_rule_call ep0 5 1]"
    unfolding iss svc0_Endpoint by (simp add: rule_of_def doc_json_def)
  with run ok show ?thesis by blast
qed

subsection \<open>The upsert executor against its specification\<close>

lemma saveAppRules_attempt_all:
  assumes "app_ID ap = Some a"
  shows "saveAppRules svc J ap s =
     (case attempt_all (Repository svc) (Endpoint svc) a (app_Rules ap) s of
        (outs, s') \<Rightarrow>
          (Ret (ap\<lparr>app_Rules := map2 (bind_outcome J) (app_Rules ap) outs\<rparr>,
                StackErrors (failures outs)), s'))"
  using assms by (simp add: saveAppRules_def save_loop_attempt_all split: prod.splits)

lemma failures_empty_iff: "failures outs = [] \<longleftrightarrow> (\<forall>out\<in>set outs. snd out = None)"
  by (induction outs) (auto simp: failures_Nil failures_Cons split: option.splits)

lemma constituents_StackErrors: "constituents (StackErrors es) = es"
  by (simp add: StackErrors_def)

lemma StackErrors_None_iff: "StackErrors es = None \<longleftrightarrow> es = []"
  by (simp add: StackErrors_def)

lemma saveAppRules_at:
  assumes ap: "app_ID ap = Some a"
    and rules: "app_Rules ap = xs @ r # ys"
    and before: "saveAppRules svc J (ap\<lparr>app_Rules := xs\<rparr>) s = (resk, sk)"
    and call: "call_repo (Repository svc) (fst (rule_call (Endpoint svc) a r))
                 (snd (rule_call (Endpoint svc) a r)) sk = (out, sk')"
  shows "\<exists>ap' err s'. saveAppRules svc J ap s = (Ret (ap', err), s') \<and>
           length (app_Rules ap') = length (app_Rules ap) \<and>
           app_Rules ap' ! length xs = bind_outcome J r out"
proof -
  obtain outs1 where a1: "attempt_all (Repository svc) (Endpoint svc) a xs s = (outs1, sk)"
    using before ap by (auto simp: saveAppRules_attempt_all split: prod.splits)
  obtain outs2 sf where a2: "attempt_all (Repository svc) (Endpoint svc) a ys sk' = (outs2, sf)"
    by (metis prod.exhaust)
  have l1: "length outs1 = length xs" using attempt_all_length[OF a1] .
  have l2: "length outs2 = length ys" using attempt_all_length[OF a2] .
  have all: "attempt_all (Repository svc) (Endpoint svc) a (xs @ r # ys) s = (outs1 @ out # outs2, sf)"
    by (simp add: attempt_all_append a1 call a2)
  have "saveAppRules svc J ap s =
          (Ret (ap\<lparr>app_Rules := map2 (bind_outcome J) (xs @ r # ys) (outs1 @ out # outs2)\<rparr>,
                StackErrors (failures (outs1 @ out # outs2))), sf)"
    by (simp add: saveAppRules_attempt_all[OF ap] rules all)
  moreover have "map2 (bind_outcome J) (xs @ r # ys) (outs1 @ out # outs2) ! length xs = bind_outcome J r out"
    using l1 by (simp add: nth_append)
  moreover have "length (map2 (bind_outcome J) (xs @ r # ys) (outs1 @ out # outs2)) = length (xs @ r # ys)"
    using l1 l2 by simp
  ultimately show ?thesis using rules by simp
qed

text \<open>Runs on the scripted repository.\<close>

lemma saveAppRules_scripted_one:
  "saveAppRules svc0 doc_json (app_of (Some a) [r] ps) ((b, None) # w, cs) =
     (Ret (app_of (Some a) [r\<lparr>rule_ID := Some (bound_id doc_json b)\<rparr>] ps, None),
      (w, cs @ [rule_call ep0 a r]))"
  by (cases "rule_ID r")
     (simp_all add: saveAppRules_def save_rule_def scripted_call app_of_def StackErrors_def
        rule_call_def svc0_Endpoint bound_id_def)

subsection \<open>Evaluating runs on the scripted repository\<close>

lemmas run_simps =
  saveAppRules_def save_rule_def scripted_call recover_def reread_def GetOne_def
  pruneAppRules_def pruneParameters_def doc_json_def app_of_def rule_of_def param_of_def
  StackErrors_def kept_def svc0_Endpoint

subsection \<open>Partial-failure continuation\<close>

text \<open>
  C2. For every list of rules of a parent that has its identifier, \<^verbatim>\<open>saveAppRules\<close>
  returns and has issued exactly the call of every rule, in the order of the collection,
  whatever the outcomes: it ends in the state the no-fail-fast batch \<open>attempt_all\<close> ends
  in. The constituents of the returned error are the failures of these calls, in order,
  and the error is nil exactly when no call failed. With three rules of which the second
  call fails and the other two succeed, the third call is issued and the returned error
  has exactly one constituent, the failure of the second call.
  (What the aggregator returns is the modelled \<open>StackErrors\<close>.)
\<close>

theorem saveAppRules_no_fail_fast:
  assumes ap: "app_ID ap = Some a"
  shows "\<exists>ap' err outs s'.
           attempt_all (Repository svc) (Endpoint svc) a (app_Rules ap) s = (outs, s') \<and>
           saveAppRules svc J ap s = (Ret (ap', err), s') \<and>
           issued s s' = map (rule_call (Endpoint svc) a) (app_Rules ap) \<and>
           constituents err = failures outs \<and>
           (err = None \<longleftrightarrow> (\<forall>out\<in>set outs. snd out = None)) \<and>
           (\<forall>r1 r2 r3 b1 b2 b3 e s1 s2 s3.
              app_Rules ap = [r1, r2, r3] \<and>
              call_repo (Repository svc) (fst (rule_call (Endpoint svc) a r1))
                (snd (rule_call (Endpoint svc) a r1)) s = ((b1, None), s1) \<and>
              call_repo (Repository svc) (fst (rule_call (Endpoint svc) a r2))
                (snd (rule_call (Endpoint svc) a r2)) s1 = ((b2, Some e), s2) \<and>
              call_repo (Repository svc) (fst (rule_call (Endpoint svc) a r3))
                (snd (rule_call (Endpoint svc) a r3)) s2 = ((b3, None), s3) \<longrightarrow>
              s' = s3 \<and> constituents err = [e] \<and>
              issued s s' = [rule_call (Endpoint svc) a r1, rule_call (Endpoint svc) a r2,
                             rule_call (Endpoint svc) a r3])"
proof -
  obtain outs sf where at: "attempt_all (Repository svc) (Endpoint svc) a (app_Rules ap) s = (outs, sf)"
    by (metis prod.exhaust)
  let ?ap' = "ap\<lparr>app_Rules := map2 (bind_outcome J) (app_Rules ap) outs\<rparr>"
  let ?err = "StackErrors (failures outs)"
  have run: "saveAppRules svc J ap s = (Ret (?ap', ?err), sf)"
    by (simp add: saveAppRules_attempt_all[OF ap] at)
  have iss: "issued s sf = map (rule_call (Endpoint svc) a) (app_Rules ap)"
    using attempt_all_calls[OF at] by (rule issued_append)
  have con: "constituents ?err = failures outs"
    by (simp add: constituents_StackErrors)
  have nil: "?err = None \<longleftrightarrow> (\<forall>out\<in>set outs. snd out = None)"
    by (simp add: StackErrors_None_iff failures_empty_iff)
  have three: "sf = s3 \<and> constituents ?err = [e] \<and>
              issued s sf = [rule_call (Endpoint svc) a r1, rule_call (Endpoint svc) a r2,
                             rule_call (Endpoint svc) a r3]"
    if "app_Rules ap = [r1, r2, r3]"
      and "call_repo (Repository svc) (fst (rule_call (Endpoint svc) a r1))
                (snd (rule_call (Endpoint svc) a r1)) s = ((b1, None), s1)"
      and "call_repo (Repository svc) (fst (rule_call (Endpoint svc) a r2))
                (snd (rule_call (Endpoint svc) a r2)) s1 = ((b2, Some e), s2)"
      and "call_repo (Repository svc) (fst (rule_call (Endpoint svc) a r3))
                (snd (rule_call (Endpoint svc) a r3)) s2 = ((b3, None), s3)"
    for r1 r2 r3 b1 b2 b3 e s1 s2 s3
  proof -
    from that at have "outs = [(b1, None), (b2, Some e), (b3, None)]" and "sf = s3"
      by simp_all
    then show ?thesis using iss that(1)
      by (simp add: constituents_StackErrors failures_Cons failures_Nil)
  qed
  show ?thesis
    apply (rule exI[of _ ?ap'], rule exI[of _ ?err], rule exI[of _ outs], rule exI[of _ sf])
    apply (intro conjI)
         apply (rule at)
        apply (rule run)
       apply (rule iss)
      apply (rule con)
     apply (rule nil)
    using three apply blast
    done
qed

text \<open>A Create, a failing Update and a Create: three calls, one constituent failure.\<close>

theorem saveAppRules_no_fail_fast_witness:
  "\<exists>ap' err s'.
     saveAppRules svc0 doc_json (app_of (Some 5) [rule_of None, rule_of (Some 12), rule_of None] [])
       ([(DIds [(''id'', 11)], None), (DNil, Some boom), (DIds [(''id'', 13)], None)], [])
       = (Ret (ap', err), s') \<and>
     err \<noteq> None \<and> constituents err = [boom] \<and>
     issued ([(DIds [(''id'', 11)], None), (DNil, Some boom), (DIds [(''id'', 13)], None)], []) s'
       = [rule_call ep0 5 (rule_of None), rule_call ep0 5 (rule_of (Some 12)),
          rule_call ep0 5 (rule_of None)]"
proof -
  let ?ap = "app_of (Some 5) [rule_of None, rule_of (Some 12), rule_of None] []"
  let ?s = "([(DIds [(''id'', 11)], None), (DNil, Some boom), (DIds [(''id'', 13)], None)], [])
              :: (doc \<times> error option) list st"
  have ap: "app_ID ?ap = Some 5" by (simp add: app_of_def)
  have rules: "app_Rules ?ap = [rule_of None, rule_of (Some 12), rule_of None]"
    by (simp add: app_of_def)
  from saveAppRules_no_fail_fast[OF ap, of svc0 ?s doc_json]
  obtain ap' err outs s' where run: "saveAppRules svc0 doc_json ?ap ?s = (Ret (ap', err), s')"
    and outs: "attempt_all (Repository svc0) (Endpoint svc0) 5 (app_Rules ?ap) ?s = (outs, s')"
    and nil: "err = None \<longleftrightarrow> (\<forall>out\<in>set outs. snd out = None)"
    and three: "\<forall>r1 r2 r3 b1 b2 b3 e s1 s2 s3.
              app_Rules ?ap = [r1, r2, r3] \<and>
              call_repo (Repository svc0) (fst (rule_call (Endpoint svc0) 5 r1))
                (snd (rule_call (Endpoint svc0) 5 r1)) ?s = ((b1, None), s1) \<and>
              call_repo (Repository svc0) (fst (rule_call (Endpoint svc0) 5 r2))
                (snd (rule_call (Endpoint svc0) 5 r2)) s1 = ((b2, Some e), s2) \<and>
              call_repo (Repository svc0) (fst (rule_call (Endpoint svc0) 5 r3))
                (snd (rule_call (Endpoint svc0) 5 r3)) s2 = ((b3, None), s3) \<longrightarrow>
              s' = s3 \<and> constituents err = [e] \<and>
              issued ?s s' = [rule_call (Endpoint svc0) 5 r1, rule_call (Endpoint svc0) 5 r2,
                             rule_call (Endpoint svc0) 5 r3]"
    by (elim exE conjE)
  have calls: "app_Rules ?ap = [rule_of None, rule_of (Some 12), rule_of None] \<and>
        call_repo (Repository svc0) (fst (rule_call (Endpoint svc0) 5 (rule_of None)))
                (snd (rule_call (Endpoint svc0) 5 (rule_of None))) ?s
          = ((DIds [(''id'', 11)], None),
             ([(DNil, Some boom), (DIds [(''id'', 13)], None)], [rule_call (Endpoint svc0) 5 (rule_of None)])) \<and>
        call_repo (Repository svc0) (fst (rule_call (Endpoint svc0) 5 (rule_of (Some 12))))
                (snd (rule_call (Endpoint svc0) 5 (rule_of (Some 12))))
                ([(DNil, Some boom), (DIds [(''id'', 13)], None)], [rule_call (Endpoint svc0) 5 (rule_of None)])
          = ((DNil, Some boom),
             ([(DIds [(''id'', 13)], None)],
              [rule_call (Endpoint svc0) 5 (rule_of None), rule_call (Endpoint svc0) 5 (rule_of (Some 12))])) \<and>
        call_repo (Repository svc0) (fst (rule_call (Endpoint svc0) 5 (rule_of None)))
                (snd (rule_call (Endpoint svc0) 5 (rule_of None)))
                ([(DIds [(''id'', 13)], None)],
                 [rule_call (Endpoint svc0) 5 (rule_of None), rule_call (Endpoint svc0) 5 (rule_of (Some 12))])
          = ((DIds [(''id'', 13)], None),
             ([], [rule_call (Endpoint svc0) 5 (rule_of None), rule_call (Endpoint svc0) 5 (rule_of (Some 12)),
                   rule_call (Endpoint svc0) 5 (rule_of None)]))"
    by (simp add: rules scripted_call)
  from three[rule_format, OF calls]
  have c: "constituents err = [boom]"
    and i: "issued ?s s' = [rule_call (Endpoint svc0) 5 (rule_of None),
          rule_call (Endpoint svc0) 5 (rule_of (Some 12)), rule_call (Endpoint svc0) 5 (rule_of None)]"
    by blast+
  from c have "err \<noteq> None" by (cases err) auto
  with run c i[unfolded svc0_Endpoint] show ?thesis by blast
qed

subsection \<open>Identifier binding\<close>

text \<open>
  C3, as the code has it. Let \<open>r\<close> be a rule without identifier in the rules of a parent,
  with the rules \<open>xs\<close> before it, and let the Create for \<open>r\<close>, issued in the state the loop
  has reached after \<open>xs\<close>, succeed with a body whose decoded \<^verbatim>\<open>id\<close> is \<open>v\<close>. Then
  \<^verbatim>\<open>saveAppRules\<close> returns, and the rule at the position of \<open>r\<close> has the identifier
  \<^verbatim>\<open>int32(v)\<close>, the low 32 bits of \<open>v\<close>: present, and the integer \<open>v\<close> itself whenever \<open>v\<close>
  is a 32-bit value.
\<close>

theorem saveAppRules_binds_created_identifier:
  assumes ap: "app_ID ap = Some a"
    and rules: "app_Rules ap = xs @ r # ys"
    and absent: "rule_ID r = None"
    and before: "saveAppRules svc J (ap\<lparr>app_Rules := xs\<rparr>) s = (resk, sk)"
    and create: "call_repo (Repository svc) VCreate
                   (json_request (rules_url (Endpoint svc) a) (RulePayload r)) sk = ((resp, None), sk')"
    and idf: "unmarshal_ids J resp ''id'' = Some v"
  shows "\<exists>ap' err s'.
           saveAppRules svc J ap s = (Ret (ap', err), s') \<and>
           length (app_Rules ap') = length (app_Rules ap) \<and>
           rule_ID (app_Rules ap' ! length xs) = Some (word_of_int v) \<and>
           (- (2 ^ 31) \<le> v \<and> v < 2 ^ 31 \<longrightarrow> sint (the (rule_ID (app_Rules ap' ! length xs))) = v)"
proof -
  have call: "call_repo (Repository svc) (fst (rule_call (Endpoint svc) a r))
                 (snd (rule_call (Endpoint svc) a r)) sk = ((resp, None), sk')"
    using create absent by (simp add: rule_call_def)
  have b: "bind_outcome J r (resp, None) = r\<lparr>rule_ID := Some (word_of_int v)\<rparr>"
    using idf by (simp add: bind_outcome_def bound_id_def lookup_id_def)
  have range: "sint (word_of_int v :: int32) = v" if "- (2 ^ 31) \<le> v \<and> v < 2 ^ 31"
    using that by (simp add: sint_sbintrunc' signed_take_bit_int_eq_self)
  from saveAppRules_at[OF ap rules before call] b range
  show ?thesis by auto
qed

text \<open>
  C3, as stated, at a concrete input: the Create answers with the \<^verbatim>\<open>id\<close> 4294967301, which
  is what the body decodes to, and the rule is left with the identifier 5.
\<close>

theorem saveAppRules_created_identifier_truncated:
  "saveAppRules svc0 doc_json (app_of (Some 5) [rule_of None] [])
     ([(DIds [(''id'', 4294967301)], None)], [])
   = (Ret (app_of (Some 5) [rule_of (Some 5)] [], None), ([], [rule_call ep0 5 (rule_of None)])) \<and>
   sint (5 :: int32) \<noteq> 4294967301"
  by (simp add: run_simps rule_call_def lookup_id_def)

text \<open>The second of two rules is new; its Create answers with the identifier 77.\<close>

theorem saveAppRules_binds_created_identifier_witness:
  "\<exists>ap' err s'.
     saveAppRules svc0 doc_json (app_of (Some 5) [rule_of (Some 12), rule_of None] [])
       ([(DIds [(''id'', 12)], None), (DIds [(''id'', 77)], None)], []) = (Ret (ap', err), s') \<and>
     rule_ID (app_Rules ap' ! 1) = Some 77 \<and> sint (the (rule_ID (app_Rules ap' ! 1))) = 77"
proof -
  let ?ap = "app_of (Some 5) [rule_of (Some 12), rule_of None] []"
  let ?s = "([(DIds [(''id'', 12)], None), (DIds [(''id'', 77)], None)], [])
              :: (doc \<times> error option) list st"
  have ap: "app_ID ?ap = Some 5" by (simp add: app_of_def)
  have rules: "app_Rules ?ap = [rule_of (Some 12)] @ rule_of None # []" by (simp add: app_of_def)
  have absent: "rule_ID (rule_of None) = None" by (simp add: rule_of_def)
  have before: "saveAppRules svc0 doc_json (?ap\<lparr>app_Rules := [rule_of (Some 12)]\<rparr>) ?s =
      (Ret (app_of (Some 5) [(rule_of (Some 12))\<lparr>rule_ID := Some (bound_id doc_json (DIds [(''id'', 12)]))\<rparr>] [], None),
       ([(DIds [(''id'', 77)], None)], [] @ [rule_call ep0 5 (rule_of (Some 12))]))"
    using saveAppRules_scripted_one[of 5 "rule_of (Some 12)" "[]" "DIds [(''id'', 12)]" "[(DIds [(''id'', 77)], None)]" "[]"]
    by (simp add: app_of_def)
  have create: "call_repo (Repository svc0) VCreate
                   (json_request (rules_url (Endpoint svc0) 5) (RulePayload (rule_of None)))
                   ([(DIds [(''id'', 77)], None)], [] @ [rule_call ep0 5 (rule_of (Some 12))])
                 = ((DIds [(''id'', 77)], None),
                    ([], ([] @ [rule_call ep0 5 (rule_of (Some 12))]) @
                       [(VCreate, json_request (rules_url (Endpoint svc0) 5) (RulePayload (rule_of None)))]))"
    by (rule scripted_call)
  have idf: "unmarshal_ids doc_json (DIds [(''id'', 77)]) ''id'' = Some 77"
    by (simp add: doc_json_def)
  have inrange: "- (2 ^ 31) \<le> (77::int) \<and> (77::int) < 2 ^ 31" by simp
  from saveAppRules_binds_created_identifier[OF ap rules absent before create idf] inrange
  show ?thesis by auto
qed

subsection \<open>Successful calls overwrite the identifier\<close>

text \<open>
  C10, as the code has it. Let \<open>r\<close> be any rule of a parent, identified or not, whose call
  (an Update when it is identified, a Create otherwise) succeeds with the body \<open>resp\<close>.
  Then \<^verbatim>\<open>saveAppRules\<close> returns and, whatever identifier \<open>r\<close> had, the rule at the
  position of \<open>r\<close> has the identifier \<^verbatim>\<open>int32(v)\<close> when the body decodes to the \<^verbatim>\<open>id\<close> \<open>v\<close>
  (the low 32 bits of \<open>v\<close>; \<open>v\<close> itself whenever \<open>v\<close> is a 32-bit value), and the
  identifier 0 when the body has no \<^verbatim>\<open>id\<close> key.
\<close>

theorem saveAppRules_overwrites_identifier:
  assumes ap: "app_ID ap = Some a"
    and rules: "app_Rules ap = xs @ r # ys"
    and before: "saveAppRules svc J (ap\<lparr>app_Rules := xs\<rparr>) s = (resk, sk)"
    and call: "call_repo (Repository svc) (fst (rule_call (Endpoint svc) a r))
                 (snd (rule_call (Endpoint svc) a r)) sk = ((resp, None), sk')"
  shows "\<exists>ap' err s'.
           saveAppRules svc J ap s = (Ret (ap', err), s') \<and>
           length (app_Rules ap') = length (app_Rules ap) \<and>
           (\<forall>v. unmarshal_ids J resp ''id'' = Some v \<longrightarrow>
                rule_ID (app_Rules ap' ! length xs) = Some (word_of_int v) \<and>
                (- (2 ^ 31) \<le> v \<and> v < 2 ^ 31 \<longrightarrow>
                   sint (the (rule_ID (app_Rules ap' ! length xs))) = v)) \<and>
           (unmarshal_ids J resp ''id'' = None \<longrightarrow> rule_ID (app_Rules ap' ! length xs) = Some 0)"
proof -
  have b: "bind_outcome J r (resp, None) =
             r\<lparr>rule_ID := Some (word_of_int (lookup_id (unmarshal_ids J resp)))\<rparr>"
    by (simp add: bind_outcome_def bound_id_def)
  have z: "word_of_int (lookup_id (unmarshal_ids J resp)) = (0 :: int32)"
    if "unmarshal_ids J resp ''id'' = None"
    using that by (simp add: lookup_id_def)
  have p: "word_of_int (lookup_id (unmarshal_ids J resp)) = (word_of_int v :: int32)"
    if "unmarshal_ids J resp ''id'' = Some v" for v
    using that by (simp add: lookup_id_def)
  have range: "sint (word_of_int v :: int32) = v" if "- (2 ^ 31) \<le> v \<and> v < 2 ^ 31" for v
    using that by (simp add: sint_sbintrunc' signed_take_bit_int_eq_self)
  from saveAppRules_at[OF ap rules before call]
  obtain ap' err s' where run: "saveAppRules svc J ap s = (Ret (ap', err), s')"
    and len: "length (app_Rules ap') = length (app_Rules ap)"
    and at: "app_Rules ap' ! length xs = bind_outcome J r (resp, None)"
    by blast
  have idk: "rule_ID (app_Rules ap' ! length xs) = Some (word_of_int (lookup_id (unmarshal_ids J resp)))"
    by (simp add: at b)
  have c1: "\<forall>v. unmarshal_ids J resp ''id'' = Some v \<longrightarrow>
                rule_ID (app_Rules ap' ! length xs) = Some (word_of_int v) \<and>
                (- (2 ^ 31) \<le> v \<and> v < 2 ^ 31 \<longrightarrow>
                   sint (the (rule_ID (app_Rules ap' ! length xs))) = v)"
    using idk p range by simp
  have c2: "unmarshal_ids J resp ''id'' = None \<longrightarrow> rule_ID (app_Rules ap' ! length xs) = Some 0"
    using idk z by simp
  show ?thesis
    apply (rule exI[of _ ap'], rule exI[of _ err], rule exI[of _ s'])
    apply (intro conjI)
       apply (rule run)
      apply (rule len)
     apply (rule c1)
    apply (rule c2)
    done
qed

text \<open>
  C10, as stated, at a concrete input: the Update of rule 12 answers with the \<^verbatim>\<open>id\<close>
  4294967301, and the rule is left with the identifier 5.
\<close>

theorem saveAppRules_update_identifier_truncated:
  "saveAppRules svc0 doc_json (app_of (Some 5) [rule_of (Some 12)] [])
     ([(DIds [(''id'', 4294967301)], None)], [])
   = (Ret (app_of (Some 5) [rule_of (Some 5)] [], None),
      ([], [rule_call ep0 5 (rule_of (Some 12))])) \<and>
   sint (5 :: int32) \<noteq> 4294967301"
  by (simp add: run_simps rule_call_def lookup_id_def)

text \<open>
  A rule with the identifier 12 whose Update answers with the \<^verbatim>\<open>id\<close> 99 is left with the
  identifier 99, and one whose Update succeeds with a body without \<^verbatim>\<open>id\<close> is left with
  the identifier 0.
\<close>

theorem saveAppRules_overwrites_identifier_witness:
  "fst (rule_call ep0 5 (rule_of (Some 12))) = VUpdate \<and>
   (\<exists>ap' err s'.
     saveAppRules svc0 doc_json (app_of (Some 5) [rule_of (Some 12), rule_of (Some 13)] [])
       ([(DIds [(''id'', 99)], None), (DNil, None)], []) = (Ret (ap', err), s') \<and>
     rule_ID (app_Rules ap' ! 0) = Some 99 \<and> sint (the (rule_ID (app_Rules ap' ! 0))) = 99) \<and>
   (\<exists>ap' err s'.
     saveAppRules svc0 doc_json (app_of (Some 5) [rule_of (Some 12)] []) ([(DNil, None)], [])
       = (Ret (ap', err), s') \<and>
     rule_ID (app_Rules ap' ! 0) = Some 0)"
proof -
  let ?ap = "app_of (Some 5) [rule_of (Some 12)] []"
  let ?s = "([(DNil, None)], []) :: (doc \<times> error option) list st"
  let ?ap2 = "app_of (Some 5) [rule_of (Some 12), rule_of (Some 13)] []"
  let ?s2 = "([(DIds [(''id'', 99)], None), (DNil, None)], []) :: (doc \<times> error option) list st"
  have ap: "app_ID ?ap = Some 5" by (simp add: app_of_def)
  have rules: "app_Rules ?ap = [] @ rule_of (Some 12) # []" by (simp add: app_of_def)
  have before: "saveAppRules svc0 doc_json (?ap\<lparr>app_Rules := []\<rparr>) ?s = (Ret (?ap\<lparr>app_Rules := []\<rparr>, None), ?s)"
    by (simp add: saveAppRules_def app_of_def StackErrors_def)
  have call: "call_repo (Repository svc0) (fst (rule_call (Endpoint svc0) 5 (rule_of (Some 12))))
                 (snd (rule_call (Endpoint svc0) 5 (rule_of (Some 12)))) ?s
               = ((DNil, None), ([], [] @ [(fst (rule_call (Endpoint svc0) 5 (rule_of (Some 12))),
                                            snd (rule_call (Endpoint svc0) 5 (rule_of (Some 12))))]))"
    by (rule scripted_call)
  have noid: "unmarshal_ids doc_json DNil ''id'' = None"
    by (simp add: doc_json_def)
  have ap2: "app_ID ?ap2 = Some 5" by (simp add: app_of_def)
  have rules2: "app_Rules ?ap2 = [] @ rule_of (Some 12) # [rule_of (Some 13)]" by (simp add: app_of_def)
  have before2: "saveAppRules svc0 doc_json (?ap2\<lparr>app_Rules := []\<rparr>) ?s2 = (Ret (?ap2\<lparr>app_Rules := []\<rparr>, None), ?s2)"
    by (simp add: saveAppRules_def app_of_def StackErrors_def)
  have call2: "call_repo (Repository svc0) (fst (rule_call (Endpoint svc0) 5 (rule_of (Some 12))))
                 (snd (rule_call (Endpoint svc0) 5 (rule_of (Some 12)))) ?s2
               = ((DIds [(''id'', 99)], None),
                  ([(DNil, None)], [] @ [(fst (rule_call (Endpoint svc0) 5 (rule_of (Some 12))),
                                            snd (rule_call (Endpoint svc0) 5 (rule_of (Some 12))))]))"
    by (rule scripted_call)
  have id99: "unmarshal_ids doc_json (DIds [(''id'', 99)]) ''id'' = Some 99"
    by (simp add: doc_json_def)
  have verb: "fst (rule_call ep0 5 (rule_of (Some 12))) = VUpdate"
    by (simp add: rule_of_def rule_call_def)
  have first: "\<exists>ap' err s'.
     saveAppRules svc0 doc_json ?ap2 ?s2 = (Ret (ap', err), s') \<and>
     rule_ID (app_Rules ap' ! 0) = Some 99 \<and> sint (the (rule_ID (app_Rules ap' ! 0))) = 99"
    using saveAppRules_overwrites_identifier[OF ap2 rules2 before2 call2] id99 by auto
  have second: "\<exists>ap' err s'.
     saveAppRules svc0 doc_json ?ap ?s = (Ret (ap', err), s') \<and> rule_ID (app_Rules ap' ! 0) = Some 0"
    using saveAppRules_overwrites_identifier[OF ap rules before call] noid by auto
  from verb first second show ?thesis by blast
qed


subsection \<open>A failed parent Create\<close>

text \<open>
  C6, as the code has it. When the Create of the parent fails, \<^verbatim>\<open>Create\<close> returns at once
  with the transport error and has issued that one call and nothing else: no child upsert
  and no read. What it returns with the error is not the nil pointer but \<^verbatim>\<open>&newApp\<close>,
  a pointer to the zero value of \<^verbatim>\<open>App\<close>: an app without identifier, rules or parameters,
  holding nothing of the caller's app nor of the remote store.
\<close>

theorem Create_transport_failure:
  assumes "call_repo (Repository svc) VCreate (json_request (Endpoint svc) (AppPayload ap)) s
             = ((resp, Some e), s1)"
  shows "Create svc J ap s = (Ret (Some zero_App, Some e), s1) \<and>
         issued s s1 = [(VCreate, json_request (Endpoint svc) (AppPayload ap))]"
  using assms call_repo_calls[OF assms] by (simp add: Create_def issued_append)

text \<open>
  C6, as stated, at a concrete input: the Create of the parent fails with \<open>boom\<close>, and the
  first component of the result is \<open>Some zero_App\<close>, not \<open>None\<close>.
\<close>

theorem Create_transport_failure_returns_app:
  "Create svc0 doc_json (app_of None [rule_of None] []) ([(DNil, Some boom)], [])
     = (Ret (Some zero_App, Some boom),
        ([], [(VCreate, json_request ep0 (AppPayload (app_of None [rule_of None] [])))])) \<and>
   Create svc0 doc_json (app_of None [rule_of None] []) ([(DNil, Some boom)], [])
     \<noteq> (Ret (None, Some boom),
        ([], [(VCreate, json_request ep0 (AppPayload (app_of None [rule_of None] [])))]))"
  by (simp add: Create_def scripted_call svc0_Endpoint)

theorem Create_transport_failure_witness:
  "Create svc0 doc_json (app_of None [rule_of None] []) ([(DNil, Some boom)], [])
     = (Ret (Some zero_App, Some boom),
        ([], [(VCreate, json_request ep0 (AppPayload (app_of None [rule_of None] [])))])) \<and>
   issued ([(DNil, Some boom)], [])
      ([], [(VCreate, json_request ep0 (AppPayload (app_of None [rule_of None] [])))])
     = [(VCreate, json_request ep0 (AppPayload (app_of None [rule_of None] [])))]"
proof -
  have "call_repo (Repository svc0) VCreate
          (json_request (Endpoint svc0) (AppPayload (app_of None [rule_of None] [])))
          ([(DNil, Some boom)], [])
        = ((DNil, Some boom),
           ([], [] @ [(VCreate, json_request (Endpoint svc0) (AppPayload (app_of None [rule_of None] [])))]))"
    by (rule scripted_call)
  from Create_transport_failure[OF this, of doc_json]
  show ?thesis by (simp add: svc0_Endpoint)
qed

subsection \<open>Recovery fallback\<close>

lemma GetOne_success:
  "GetOne svc J i s = (Ret (recovered, None), s') \<Longrightarrow> \<exists>a. recovered = Some a"
  by (auto simp: GetOne_def split: prod.splits option.splits)

text \<open>
  C4. When the Update of the parent succeeds, \<^verbatim>\<open>saveAppRules\<close> returns the error \<open>e\<close> and
  the recovery read \<^verbatim>\<open>GetOne\<close> on the identifier of the updated app returns without
  error, \<^verbatim>\<open>Update\<close> returns what the recovery read returned, which is an app, together with
  \<open>e\<close>, the error of the upsert.
\<close>

theorem Update_recovery_fallback:
  assumes upd: "call_repo (Repository svc) VUpdate
                  (json_request (app_url (Endpoint svc) aid) (AppPayload ap)) s = ((resp, None), s1)"
    and save: "saveAppRules svc J ((unmarshal_App J resp)\<lparr>app_Rules := app_Rules ap\<rparr>) s1
                 = (Ret (updatedApp, Some e), s2)"
    and ident: "app_ID updatedApp = Some i"
    and rec: "GetOne svc J i s2 = (Ret (recovered, None), s3)"
  shows "Update svc J aid ap s = (Ret (recovered, Some e), s3) \<and> recovered \<noteq> None"
  using GetOne_success[OF rec] by (auto simp add: Update_def upd save recover_def ident rec)

text \<open>
  The Update of rule 12 fails; the recovery read finds the app 5 with its rule 12, and it
  is returned with the aggregated error of the upsert.
\<close>

theorem Update_recovery_fallback_witness:
  "Update svc0 doc_json 5 (app_of (Some 5) [rule_of (Some 12)] [])
     ([(DApp (app_of (Some 5) [] []), None), (DNil, Some boom),
       (DApp (app_of (Some 5) [] []), None), (DRules [rule_of (Some 12)], None)], [])
   = (Ret (Some (app_of (Some 5) [rule_of (Some 12)] []), Some (StackedErrors [boom])),
      ([], [(VUpdate, json_request (app_url ep0 5) (AppPayload (app_of (Some 5) [rule_of (Some 12)] []))),
            rule_call ep0 5 (rule_of (Some 12)),
            (VRead, json_request (app_url ep0 5) NoPayload),
            read_rules_call ep0 5]))"
proof -
  let ?ap = "app_of (Some 5) [rule_of (Some 12)] []"
  let ?c1 = "(VUpdate, json_request (app_url ep0 5) (AppPayload ?ap))"
  have upd: "call_repo (Repository svc0) VUpdate
                  (json_request (app_url (Endpoint svc0) 5) (AppPayload ?ap))
                  ([(DApp (app_of (Some 5) [] []), None), (DNil, Some boom),
                    (DApp (app_of (Some 5) [] []), None), (DRules [rule_of (Some 12)], None)], [])
             = ((DApp (app_of (Some 5) [] []), None),
                ([(DNil, Some boom), (DApp (app_of (Some 5) [] []), None),
                  (DRules [rule_of (Some 12)], None)], [?c1]))"
    by (simp add: scripted_call svc0_Endpoint)
  have save: "saveAppRules svc0 doc_json
                 ((unmarshal_App doc_json (DApp (app_of (Some 5) [] [])))\<lparr>app_Rules := app_Rules ?ap\<rparr>)
                 ([(DNil, Some boom), (DApp (app_of (Some 5) [] []), None),
                   (DRules [rule_of (Some 12)], None)], [?c1])
              = (Ret (?ap, Some (StackedErrors [boom])),
                 ([(DApp (app_of (Some 5) [] []), None), (DRules [rule_of (Some 12)], None)],
                  [?c1, rule_call ep0 5 (rule_of (Some 12))]))"
    by (simp add: run_simps rule_call_def)
  have ident: "app_ID ?ap = Some 5" by (simp add: app_of_def)
  have rec: "GetOne svc0 doc_json 5
               ([(DApp (app_of (Some 5) [] []), None), (DRules [rule_of (Some 12)], None)],
                [?c1, rule_call ep0 5 (rule_of (Some 12))])
             = (Ret (Some ?ap, None),
                ([], [?c1, rule_call ep0 5 (rule_of (Some 12)),
                      (VRead, json_request (app_url ep0 5) NoPayload), read_rules_call ep0 5]))"
    by (simp add: run_simps read_rules_call_def)
  from Update_recovery_fallback[OF upd save ident rec]
  show ?thesis by simp
qed

subsection \<open>Recovery failure\<close>

text \<open>
  When the upsert batch fails and the recovery read fails too, \<^verbatim>\<open>Create\<close> and \<^verbatim>\<open>Update\<close>
  return no app and the error of the upsert. When a prune fails in \<^verbatim>\<open>Update\<close> and the
  recovery read fails, the statement \<^verbatim>\<open>return nil, err\<close> returns the variable that
  \<^verbatim>\<open>saveAppRules\<close> has just left nil: no app and no error.
\<close>

lemma Create_recovery_failure:
  assumes "call_repo (Repository svc) VCreate (json_request (Endpoint svc) (AppPayload ap)) s
             = ((resp, None), s1)"
    and "saveAppRules svc J ((unmarshal_App J resp)\<lparr>app_Rules := app_Rules ap\<rparr>) s1
           = (Ret (newApp, Some e), s2)"
    and "app_ID newApp = Some i"
    and "GetOne svc J i s2 = (Ret (recovered, Some e'), s3)"
  shows "Create svc J ap s = (Ret (None, Some e), s3)"
  using assms by (simp add: Create_def recover_def)

lemma Update_upsert_recovery_failure:
  assumes "call_repo (Repository svc) VUpdate
             (json_request (app_url (Endpoint svc) aid) (AppPayload ap)) s = ((resp, None), s1)"
    and "saveAppRules svc J ((unmarshal_App J resp)\<lparr>app_Rules := app_Rules ap\<rparr>) s1
           = (Ret (updatedApp, Some e), s2)"
    and "app_ID updatedApp = Some i"
    and "GetOne svc J i s2 = (Ret (recovered, Some e'), s3)"
  shows "Update svc J aid ap s = (Ret (None, Some e), s3)"
  using assms by (simp add: Update_def recover_def)

lemma Update_prune_recovery_failure:
  assumes "call_repo (Repository svc) VUpdate
             (json_request (app_url (Endpoint svc) aid) (AppPayload ap)) s = ((resp, None), s1)"
    and "saveAppRules svc J ((unmarshal_App J resp)\<lparr>app_Rules := app_Rules ap\<rparr>) s1
           = (Ret (updatedApp, None), s2)"
    and "pruneAppRules svc J (app_Rules updatedApp) updatedApp s2 = (Ret pruneRuleErr, s3)"
    and "pruneParameters svc (app_Parameters ap) updatedApp s3 = (Ret pruneParamErr, s4)"
    and "pruneRuleErr \<noteq> None \<or> pruneParamErr \<noteq> None"
    and "app_ID updatedApp = Some i"
    and "GetOne svc J i s4 = (Ret (recovered, Some e'), s5)"
  shows "Update svc J aid ap s = (Ret (None, None), s5)"
  using assms by (auto simp add: Update_def recover_def)

text \<open>
  C5 does not hold of \<^verbatim>\<open>Update\<close> when the failing batch is a prune. The remote app 5 has
  a parameter 9 that the caller's app does not request; the Update of the parent and the
  read of the rules succeed, the Destroy of parameter 9 fails with \<open>boom\<close>, so that
  \<^verbatim>\<open>pruneParameters\<close> returns the aggregated failure, and the recovery read fails.
  \<^verbatim>\<open>Update\<close> returns neither an app nor an error.
\<close>

theorem Update_prune_failure_unreported:
  "Update svc0 doc_json 5 (app_of (Some 5) [] [])
     ([(DApp (app_of (Some 5) [] [(''p'', param_of (Some 9))]), None), (DRules [], None),
       (DNil, Some boom), (DNil, Some (TransportError ''down''))], [])
   = (Ret (None, None),
      ([], [(VUpdate, json_request (app_url ep0 5) (AppPayload (app_of (Some 5) [] []))),
            read_rules_call ep0 5,
            (VDestroy, json_request (parameter_url ep0 5 9) NoPayload),
            (VRead, json_request (app_url ep0 5) NoPayload)])) \<and>
   pruneParameters svc0 [] (app_of (Some 5) [] [(''p'', param_of (Some 9))])
     ([(DNil, Some boom), (DNil, Some (TransportError ''down''))],
      [(VUpdate, json_request (app_url ep0 5) (AppPayload (app_of (Some 5) [] []))),
       read_rules_call ep0 5])
   = (Ret (Some (StackedErrors [boom])),
      ([(DNil, Some (TransportError ''down''))],
       [(VUpdate, json_request (app_url ep0 5) (AppPayload (app_of (Some 5) [] []))),
        read_rules_call ep0 5,
        (VDestroy, json_request (parameter_url ep0 5 9) NoPayload)]))"
  by (simp add: Update_def run_simps read_rules_call_def)

text \<open>The outcome of that run alone: no app, no error.\<close>

theorem Update_prune_failure_unreported_witness:
  "fst (Update svc0 doc_json 5 (app_of (Some 5) [] [])
     ([(DApp (app_of (Some 5) [] [(''p'', param_of (Some 9))]), None), (DRules [], None),
       (DNil, Some boom), (DNil, Some (TransportError ''down''))], []))
   = Ret (None, None)"
  using Update_prune_failure_unreported by simp

subsection \<open>Absent identifiers in the desired set\<close>

text \<open>
  Both prune functions dereference the identifier of every requested item while building
  the Keep-Set, with no test against nil: one requested item without identifier makes
  them panic, whatever the other items and the remote set are.
\<close>

lemma pruneParameters_absent_identifier:
  assumes "(k, p) \<in> set requestedParams" and "param_ID p = None"
  shows "pruneParameters svc requestedParams ap s = (Panic, s)"
proof -
  from assms have "None \<in> set (map (\<lambda>(k, param). param_ID param) requestedParams)"
    by force
  then show ?thesis by (simp add: pruneParameters_def build_keepMap_Panic)
qed

lemma pruneAppRules_absent_identifier:
  assumes "app_ID ap = Some a" and "r \<in> set requestedRules" and "rule_ID r = None"
  shows "fst (pruneAppRules svc J requestedRules ap s) = Panic"
proof -
  from assms(2,3) have "None \<in> set (map rule_ID requestedRules)" by force
  then show ?thesis
    by (simp add: pruneAppRules_def assms(1) build_keepMap_Panic split: prod.splits)
qed

text \<open>
  C9 does not hold of the code: at a requested parameter, or rule, without identifier the
  Keep-Set is not built and the item is not skipped; the function panics. For parameters
  the panic is reached from \<^verbatim>\<open>Update\<close> with a caller's app that holds a new parameter,
  the remote app holding that parameter with the identifier 9.
\<close>

theorem prune_panics_on_absent_identifier:
  "pruneParameters svc0 [(''new'', param_of None)] (app_of (Some 5) [] []) ([], []) = (Panic, ([], [])) \<and>
   pruneAppRules svc0 doc_json [rule_of None] (app_of (Some 5) [] []) ([(DRules [], None)], [])
     = (Panic, ([], [read_rules_call ep0 5])) \<and>
   Update svc0 doc_json 5 (app_of (Some 5) [] [(''new'', param_of None)])
     ([(DApp (app_of (Some 5) [] [(''new'', param_of (Some 9))]), None), (DRules [], None)], [])
     = (Panic,
        ([], [(VUpdate, json_request (app_url ep0 5)
                 (AppPayload (app_of (Some 5) [] [(''new'', param_of None)]))),
              read_rules_call ep0 5]))"
  by (simp add: Update_def run_simps read_rules_call_def)

text \<open>The outcome of the run of \<^verbatim>\<open>Update\<close> alone.\<close>

theorem prune_panics_on_absent_identifier_witness:
  "fst (Update svc0 doc_json 5 (app_of (Some 5) [] [(''new'', param_of None)])
     ([(DApp (app_of (Some 5) [] [(''new'', param_of (Some 9))]), None), (DRules [], None)], []))
   = Panic"
  using prune_panics_on_absent_identifier by simp

subsection \<open>A failed re-read in \<^verbatim>\<open>pruneAppRules\<close>\<close>

text \<open>
  C7, as the code has it. For a parent with an identifier and requested rules that all
  carry identifiers, if the re-read of the remote rules fails and its body decodes to no
  rules (as the nil body of a failed call does), \<^verbatim>\<open>pruneAppRules\<close> returns no error and
  has issued the Read and no Destroy.
\<close>

theorem pruneAppRules_failed_read:
  assumes ap: "app_ID ap = Some a"
    and req: "\<forall>r\<in>set requestedRules. rule_ID r \<noteq> None"
    and rd: "call_repo (Repository svc) VRead (json_request (rules_url (Endpoint svc) a) NoPayload) s
               = ((resp, Some e), s1)"
    and empty: "unmarshal_Rules J resp = []"
  shows "pruneAppRules svc J requestedRules ap s = (Ret None, s1) \<and>
         issued s s1 = [read_rules_call (Endpoint svc) a]"
proof -
  from req have "None \<notin> set (map rule_ID requestedRules)" by auto
  from build_keepMap_Ret[OF this, of Map.empty]
  obtain keepMap where km: "build_keepMap (map rule_ID requestedRules) Map.empty = Ret keepMap"
    by blast
  have "pruneAppRules svc J requestedRules ap s = (Ret None, s1)"
    by (simp add: pruneAppRules_def ap rd km empty StackErrors_def)
  moreover have "issued s s1 = [read_rules_call (Endpoint svc) a]"
    using call_repo_calls[OF rd] by (simp add: issued_append read_rules_call_def)
  ultimately show ?thesis by simp
qed

text \<open>
  C7, as stated, at two concrete inputs. With a requested rule that has no identifier the
  failed re-read is followed by a panic, not by a return without error. And the error of
  the Read is dropped without looking at it, so a failed Read whose body decodes to the
  rule 7 is followed by the Destroy of rule 7.
\<close>

theorem pruneAppRules_failed_read_panics_or_destroys:
  "pruneAppRules svc0 doc_json [rule_of None] (app_of (Some 5) [] []) ([(DNil, Some boom)], [])
     = (Panic, ([], [read_rules_call ep0 5])) \<and>
   pruneAppRules svc0 doc_json [] (app_of (Some 5) [] [])
     ([(DRules [rule_of (Some 7)], Some boom), (DNil, None)], [])
     = (Ret None, ([], [read_rules_call ep0 5, destroy_rule_call ep0 5 7]))"
  by (simp add: run_simps read_rules_call_def destroy_rule_call_def)

theorem pruneAppRules_failed_read_witness:
  "pruneAppRules svc0 doc_json [rule_of (Some 2), rule_of (Some 3)] (app_of (Some 5) [] [])
     ([(DNil, Some boom)], [])
     = (Ret None, ([], [read_rules_call ep0 5])) \<and>
   issued ([(DNil, Some boom)], []) ([], [read_rules_call ep0 5]) = [read_rules_call ep0 5]"
proof -
  have ap: "app_ID (app_of (Some 5) [] []) = Some 5" by (simp add: app_of_def)
  have req: "\<forall>r\<in>set [rule_of (Some 2), rule_of (Some 3)]. rule_ID r \<noteq> None"
    by (simp add: rule_of_def)
  have rd: "call_repo (Repository svc0) VRead (json_request (rules_url (Endpoint svc0) 5) NoPayload)
              ([(DNil, Some boom)], [])
            = ((DNil, Some boom), ([], [] @ [(VRead, json_request (rules_url (Endpoint svc0) 5) NoPayload)]))"
    by (rule scripted_call)
  have empty: "unmarshal_Rules doc_json DNil = []" by (simp add: doc_json_def)
  from pruneAppRules_failed_read[OF ap req rd empty]
  show ?thesis by (simp add: read_rules_call_def svc0_Endpoint)
qed

subsection \<open>Idempotent re-apply\<close>





















end
